theory Spec2Isabelle
  imports Complex_Main "HOL-Library.Word"
begin

unbundle bit_operations_syntax

section \<open>Data model of page.tsx\<close>

text \<open>
  The page keeps everything in component state. File names are JavaScript strings; they are
  modelled as lists of 8-bit code units (the Latin-1 range of UTF-16), on which
  \<open>charCodeAt\<close> is \<open>of_char\<close>. JavaScript numbers that hold confidences, times and
  percentages are modelled as exact reals; the hash itself is a 32-bit machine integer.

  The light state of a detection and the label of an annotation are strings in the source,
  but only five constants are ever written to them (the four pushed by the labeler and the
  five offered by the annotation dialog), so they form a datatype.
\<close>

datatype label = red_light | yellow_light | green_light | traffic_light | no_traffic_light

datatype status = pending | processing | completed | error

datatype mode = single | batch

text \<open>A browser \<open>File\<close>: the fields the page reads, and the bytes it never looks at.\<close>

record File =
  name :: string
  size_f :: nat
  type_f :: string
  bytes :: "8 word list"

record Detection =
  bbox :: "int list"
  confidence :: real
  class_d :: string
  light_state :: label

record FileResult =
  fileName :: string
  fileSize :: string
  detections :: "Detection list"
  processing_time :: real
  file_type :: string
  image_preview :: "string option"
  status :: status
  file_r :: File

record Results =
  detections_r :: "Detection list"
  processing_time_r :: real
  file_type_r :: string
  image_preview_r :: "string option"

record ManualAnnotation =
  fileName_a :: string
  humanLabel :: label
  confidence_a :: real

record ComparisonResult =
  fileName_c :: string
  humanLabel_c :: label
  modelPrediction :: label
  modelConfidence :: real
  isCorrect :: bool
  file_c :: File

section \<open>String primitives\<close>

text \<open>
  \<open>String.prototype.toLowerCase\<close> on the Latin-1 range: the letters A-Z and the accented
  capitals 0xC0-0xDE (without the multiplication sign 0xD7) move up by 32.
\<close>

definition toLowerCase_char :: "char \<Rightarrow> char" where
  "toLowerCase_char c =
     (let n = (of_char c :: nat)
      in if (65 \<le> n \<and> n \<le> 90) \<or> (192 \<le> n \<and> n \<le> 222 \<and> n \<noteq> 215)
         then char_of (n + 32) else c)"

definition toLowerCase :: "string \<Rightarrow> string" where
  "toLowerCase s = map toLowerCase_char s"

fun startsWith :: "string \<Rightarrow> string \<Rightarrow> bool" where
  "startsWith s [] = True"
| "startsWith [] (p # ps) = False"
| "startsWith (c # cs) (p # ps) = (c = p \<and> startsWith cs ps)"

text \<open>\<open>String.prototype.includes\<close>: the pattern starts at some position of the string.\<close>

fun includes_s :: "string \<Rightarrow> string \<Rightarrow> bool" where
  "includes_s [] sub = (sub = [])"
| "includes_s (c # cs) sub = (startsWith (c # cs) sub \<or> includes_s cs sub)"

definition digits :: string where
  "digits = ''0123456789''"

text \<open>\<open>Number.prototype.toString\<close> of a non-negative integer index.\<close>

fun toString :: "nat \<Rightarrow> string" where
  "toString n =
     (if n < 10 then [digits ! n] else toString (n div 10) @ [digits ! (n mod 10)])"

declare toString.simps [simp del]

section \<open>The deterministic pseudo-random source\<close>

text \<open>
  One round of the loop in \<open>getDeterministicRandom\<close>:
  \<^verbatim>\<open>hash = (hash << 5) - hash + char; hash = hash & hash\<close>.
  The bitwise operators bring the value back to a signed 32-bit integer, so the
  accumulator is a 32-bit word, read as two's complement at the end.
\<close>

definition hashStep :: "32 word \<Rightarrow> char \<Rightarrow> 32 word" where
  "hashStep hash c = (let h = push_bit 5 hash - hash + of_nat (of_char c) in h AND h)"

definition hashOf :: "string \<Rightarrow> 32 word" where
  "hashOf str = foldl hashStep 0 str"

definition getDeterministicRandom :: "string \<Rightarrow> nat \<Rightarrow> real" where
  "getDeterministicRandom seed index =
     (let str = seed @ toString index;
          hash = hashOf str
      in real_of_int \<bar>sint hash\<bar> / 2147483647)"

section \<open>The labeler\<close>

text \<open>\<open>detections.push(...)\<close> under an \<open>if\<close>: the list grows at its end when the test holds.\<close>

definition push_if :: "bool \<Rightarrow> 'a list \<Rightarrow> 'a list \<Rightarrow> 'a list" where
  "push_if b new ds = (if b then ds @ new else ds)"

definition signalHead :: "real \<Rightarrow> Detection list" where
  "signalHead baseConfidence =
     [\<lparr>bbox = [120, 80, 170, 160], confidence = baseConfidence,
       class_d = ''traffic_light'', light_state = red_light\<rparr>,
      \<lparr>bbox = [120, 170, 170, 250], confidence = baseConfidence - 0.05,
       class_d = ''traffic_light'', light_state = yellow_light\<rparr>,
      \<lparr>bbox = [120, 260, 170, 340], confidence = baseConfidence + 0.02,
       class_d = ''traffic_light'', light_state = green_light\<rparr>]"

definition analyzeImageForTrafficLights :: "File \<Rightarrow> Detection list" where
  "analyzeImageForTrafficLights f =
     (let fileName = toLowerCase (name f);
          detections = [];
          baseConfidence = 0.75 + getDeterministicRandom fileName 0 * 0.2;
          bboxVariation1 = \<lfloor>getDeterministicRandom fileName 1 * 50\<rfloor>;
          bboxVariation2 = \<lfloor>getDeterministicRandom fileName 2 * 30\<rfloor>;
          detections = push_if (includes_s fileName ''red'' \<or> includes_s fileName ''stop'')
            [\<lparr>bbox = [150 + bboxVariation1, 100 + bboxVariation2, 200, 180],
              confidence = baseConfidence,
              class_d = ''traffic_light'', light_state = red_light\<rparr>] detections;
          detections = push_if (includes_s fileName ''green'' \<or> includes_s fileName ''go'')
            [\<lparr>bbox = [300 + bboxVariation1, 120 + bboxVariation2, 350, 200],
              confidence = baseConfidence,
              class_d = ''traffic_light'', light_state = green_light\<rparr>] detections;
          detections = push_if (includes_s fileName ''yellow'' \<or> includes_s fileName ''amber''
                                \<or> includes_s fileName ''caution'')
            [\<lparr>bbox = [250 + bboxVariation1, 110 + bboxVariation2, 300, 190],
              confidence = baseConfidence,
              class_d = ''traffic_light'', light_state = yellow_light\<rparr>] detections;
          detections = push_if (includes_s fileName ''traffic'' \<and> \<not> includes_s fileName ''red''
                                \<and> \<not> includes_s fileName ''green''
                                \<and> \<not> includes_s fileName ''yellow'')
            (signalHead baseConfidence) detections;
          detections = push_if (includes_s fileName ''light'' \<or> includes_s fileName ''signal''
                                \<or> getDeterministicRandom fileName 3 > 0.7)
            [\<lparr>bbox = [200 + \<lfloor>getDeterministicRandom fileName 4 * 100\<rfloor>,
                      150 + \<lfloor>getDeterministicRandom fileName 5 * 50\<rfloor>, 250, 230],
              confidence = 0.45 + getDeterministicRandom fileName 6 * 0.2,
              class_d = ''traffic_light'', light_state = traffic_light\<rparr>] detections
      in detections)"

section \<open>The primary detection\<close>

text \<open>
  \<open>Array.prototype.reduce\<close> without an initial value: the first element starts the
  accumulator and the callback runs over the rest, left to right. On the empty array it
  throws; both callers test the length first.
\<close>

fun reduce :: "('a \<Rightarrow> 'a \<Rightarrow> 'a) \<Rightarrow> 'a list \<Rightarrow> 'a option" where
  "reduce f [] = None"
| "reduce f (x # xs) = Some (foldl f x xs)"

definition higher :: "Detection \<Rightarrow> Detection \<Rightarrow> Detection" where
  "higher prev current = (if confidence prev > confidence current then prev else current)"

definition primaryDetection :: "Detection list \<Rightarrow> Detection option" where
  "primaryDetection ds = (if length ds > 0 then reduce higher ds else None)"

text \<open>The detections of a list that carry its highest confidence, in list order.\<close>

definition maxConfidence :: "Detection list \<Rightarrow> real" where
  "maxConfidence ds = Max (set (map confidence ds))"

definition maxDetections :: "Detection list \<Rightarrow> Detection list" where
  "maxDetections ds = filter (\<lambda>d. confidence d = maxConfidence ds) ds"

text \<open>
  The comparison both views make: an annotation found by file name (the first one, as
  \<open>Array.prototype.find\<close> returns it) against the primary detection. Nothing is produced
  when either is missing.
\<close>

definition compare :: "File \<Rightarrow> ManualAnnotation list \<Rightarrow> Detection list \<Rightarrow> ComparisonResult option" where
  "compare f annotations ds =
     (let primary = primaryDetection ds;
          manualAnnotation = find (\<lambda>a. fileName_a a = name f) annotations
      in case manualAnnotation of
           None \<Rightarrow> None
         | Some a \<Rightarrow>
            (case primary of
               None \<Rightarrow> None
             | Some p \<Rightarrow>
                Some \<lparr>fileName_c = name f, humanLabel_c = humanLabel a,
                      modelPrediction = light_state p, modelConfidence = confidence p,
                      isCorrect = (humanLabel a = light_state p), file_c = f\<rparr>))"

section \<open>Accuracy metrics\<close>

record ClassStat =
  correct_s :: nat
  total_s :: nat

record Metrics =
  overall :: real
  total :: nat
  correct :: nat
  classStats :: "label \<rightharpoonup> ClassStat"

definition emptyClassStats :: "label \<rightharpoonup> ClassStat" where
  "emptyClassStats =
     [red_light \<mapsto> \<lparr>correct_s = 0, total_s = 0\<rparr>,
      yellow_light \<mapsto> \<lparr>correct_s = 0, total_s = 0\<rparr>,
      green_light \<mapsto> \<lparr>correct_s = 0, total_s = 0\<rparr>,
      traffic_light \<mapsto> \<lparr>correct_s = 0, total_s = 0\<rparr>]"

text \<open>The body of the \<open>forEach\<close>: a result whose label has no entry is skipped.\<close>

definition tally :: "ComparisonResult \<Rightarrow> (label \<rightharpoonup> ClassStat) \<Rightarrow> (label \<rightharpoonup> ClassStat)" where
  "tally result stats =
     (case stats (humanLabel_c result) of
        None \<Rightarrow> stats
      | Some e \<Rightarrow>
         (let e = e\<lparr>total_s := total_s e + 1\<rparr>;
              e = (if isCorrect result then e\<lparr>correct_s := correct_s e + 1\<rparr> else e)
          in stats(humanLabel_c result \<mapsto> e)))"

definition calculateAccuracyMetrics :: "ComparisonResult list \<Rightarrow> Metrics option" where
  "calculateAccuracyMetrics comparisonResults =
     (if length comparisonResults = 0 then None
      else
        let correct = length (filter isCorrect comparisonResults);
            total = length comparisonResults;
            accuracy = (real correct / real total) * 100;
            classStats = fold tally comparisonResults emptyClassStats
        in Some \<lparr>overall = accuracy, total = total, correct = correct,
                 classStats = classStats\<rparr>)"

section \<open>Component state and event handlers\<close>

record PageState =
  selectedFile :: "File option"
  selectedFiles :: "File list"
  imagePreview :: "string option"
  isBatchProcessing :: bool
  results :: "Results option"
  batchResults :: "FileResult list"
  batchProgress :: real
  currentProcessingFile :: string
  processingMode :: mode
  selectedResultIndex :: "nat option"
  showAnnotationModal :: bool
  currentAnnotationFile :: "File option"
  manualAnnotations :: "ManualAnnotation list"
  comparisonResults :: "ComparisonResult list"

definition initialState :: PageState where
  "initialState =
     \<lparr>selectedFile = None, selectedFiles = [], imagePreview = None,
      isBatchProcessing = False, results = None, batchResults = [], batchProgress = 0,
      currentProcessingFile = [], processingMode = single, selectedResultIndex = None,
      showAnnotationModal = False, currentAnnotationFile = None, manualAnnotations = [],
      comparisonResults = []\<rparr>"

definition isMedia :: "File \<Rightarrow> bool" where
  "isMedia f = (startsWith (type_f f) ''image/'' \<or> startsWith (type_f f) ''video/'')"

text \<open>
  Two things the handlers call are taken as parameters: \<open>formatFileSize\<close>, which renders a
  byte count through floating-point logarithms, and the browser's \<open>FileReader\<close>, whose data
  URL of a file is \<open>readAsDataURL\<close> (the model takes the read to succeed).
\<close>

definition initialResults :: "(nat \<Rightarrow> string) \<Rightarrow> File list \<Rightarrow> FileResult list" where
  "initialResults formatFileSize mediaFiles =
     map (\<lambda>f. \<lparr>fileName = name f, fileSize = formatFileSize (size_f f), detections = [],
                processing_time = 0,
                file_type = (if startsWith (type_f f) ''image/'' then ''image'' else ''video''),
                image_preview = None, status = pending, file_r = f\<rparr>) mediaFiles"

definition selectSingle :: "(File \<Rightarrow> string) \<Rightarrow> File \<Rightarrow> PageState \<Rightarrow> PageState" where
  "selectSingle readAsDataURL f st =
     st\<lparr>selectedFile := Some f, selectedFiles := [], results := None, batchResults := [],
        processingMode := single, selectedResultIndex := None,
        imagePreview := (if startsWith (type_f f) ''image/'' then Some (readAsDataURL f) else None)\<rparr>"

definition selectBatch :: "(nat \<Rightarrow> string) \<Rightarrow> File list \<Rightarrow> PageState \<Rightarrow> PageState" where
  "selectBatch formatFileSize mediaFiles st =
     st\<lparr>selectedFiles := mediaFiles, selectedFile := None, results := None,
        imagePreview := None, processingMode := batch, selectedResultIndex := None,
        batchResults := initialResults formatFileSize mediaFiles\<rparr>"

definition handleFileSelect :: "(File \<Rightarrow> string) \<Rightarrow> File list \<Rightarrow> PageState \<Rightarrow> PageState" where
  "handleFileSelect readAsDataURL files st =
     (case files of [] \<Rightarrow> st | f # _ \<Rightarrow> selectSingle readAsDataURL f st)"

definition handleFolderSelect :: "(nat \<Rightarrow> string) \<Rightarrow> File list \<Rightarrow> PageState \<Rightarrow> PageState" where
  "handleFolderSelect formatFileSize files st =
     (let mediaFiles = filter isMedia files
      in if length mediaFiles > 0 then selectBatch formatFileSize mediaFiles st else st)"

definition handleDrop ::
  "(nat \<Rightarrow> string) \<Rightarrow> (File \<Rightarrow> string) \<Rightarrow> File list \<Rightarrow> PageState \<Rightarrow> PageState" where
  "handleDrop formatFileSize readAsDataURL files st =
     (let mediaFiles = filter isMedia files
      in if length mediaFiles = 1 then selectSingle readAsDataURL (mediaFiles ! 0) st
         else if length mediaFiles > 1 then selectBatch formatFileSize mediaFiles st
         else st)"

definition handleManualAnnotation :: "File \<Rightarrow> PageState \<Rightarrow> PageState" where
  "handleManualAnnotation f st = st\<lparr>currentAnnotationFile := Some f, showAnnotationModal := True\<rparr>"

definition saveManualAnnotation :: "label \<Rightarrow> real \<Rightarrow> PageState \<Rightarrow> PageState" where
  "saveManualAnnotation l c st =
     (case currentAnnotationFile st of
        None \<Rightarrow> st
      | Some f \<Rightarrow>
         st\<lparr>manualAnnotations :=
              filter (\<lambda>a. fileName_a a \<noteq> name f) (manualAnnotations st)
              @ [\<lparr>fileName_a = name f, humanLabel = l, confidence_a = c\<rparr>],
            showAnnotationModal := False, currentAnnotationFile := None\<rparr>)"

definition resetAnnotation :: "PageState \<Rightarrow> PageState" where
  "resetAnnotation st =
     (case selectedFile st of
        None \<Rightarrow> st
      | Some f \<Rightarrow>
         st\<lparr>manualAnnotations := filter (\<lambda>a. fileName_a a \<noteq> name f) (manualAnnotations st)\<rparr>)"

section \<open>Batch processing\<close>

text \<open>\<open>prev.map((result, index) => ...)\<close>: the callback sees each element with its position.\<close>

definition map_index :: "('a \<Rightarrow> nat \<Rightarrow> 'b) \<Rightarrow> 'a list \<Rightarrow> 'b list" where
  "map_index f xs = map (\<lambda>(index, x). f x index) (enumerate 0 xs)"

text \<open>The two updates that \<open>processBatchFiles\<close> hands to \<open>setBatchResults\<close> for file \<open>i\<close>.\<close>

definition setProcessing :: "nat \<Rightarrow> FileResult list \<Rightarrow> FileResult list" where
  "setProcessing i prev =
     map_index (\<lambda>result index. if index = i then result\<lparr>status := processing\<rparr> else result) prev"

definition setCompleted ::
  "nat \<Rightarrow> Detection list \<Rightarrow> real \<Rightarrow> string option \<Rightarrow> FileResult list \<Rightarrow> FileResult list" where
  "setCompleted i ds processingTime preview prev =
     map_index (\<lambda>result index.
        if index = i
        then result\<lparr>detections := ds, processing_time := processingTime,
                    status := completed, image_preview := preview\<rparr>
        else result) prev"

text \<open>
  One round of the \<open>for\<close> loop, for index \<open>i\<close> below the number of files. The file list
  and the annotations are those the handler closed over when the run started; the list of
  comparisons is the local \<open>newComparisonResults\<close>.
\<close>

definition processIteration ::
  "(File \<Rightarrow> string) \<Rightarrow> File list \<Rightarrow> ManualAnnotation list \<Rightarrow> nat
     \<Rightarrow> ComparisonResult list \<times> PageState \<Rightarrow> ComparisonResult list \<times> PageState" where
  "processIteration readAsDataURL files annotations i acc_st =
     (let newComparisonResults = fst acc_st;
          st = snd acc_st;
          f = files ! i;
          st = st\<lparr>currentProcessingFile := name f\<rparr>;
          st = st\<lparr>batchResults := setProcessing i (batchResults st)\<rparr>;
          ds = analyzeImageForTrafficLights f;
          processingTime = 1.0 + getDeterministicRandom (name f) 9 * 2.0;
          newComparisonResults =
            (case compare f annotations ds of
               None \<Rightarrow> newComparisonResults
             | Some c \<Rightarrow> newComparisonResults @ [c]);
          preview = (if startsWith (type_f f) ''image/'' then Some (readAsDataURL f) else None);
          st = st\<lparr>batchResults := setCompleted i ds processingTime preview (batchResults st)\<rparr>;
          st = st\<lparr>batchProgress := (real (i + 1) / real (length files)) * 100\<rparr>
      in (newComparisonResults, st))"

text \<open>The loop after its first \<open>k\<close> rounds: the local list and the component state.\<close>

definition batchAfter ::
  "(File \<Rightarrow> string) \<Rightarrow> PageState \<Rightarrow> nat \<Rightarrow> ComparisonResult list \<times> PageState" where
  "batchAfter readAsDataURL st k =
     fold (processIteration readAsDataURL (selectedFiles st) (manualAnnotations st)) [0..<k]
       ([], st\<lparr>isBatchProcessing := True, batchProgress := 0\<rparr>)"

definition processBatchFiles :: "(File \<Rightarrow> string) \<Rightarrow> PageState \<Rightarrow> PageState" where
  "processBatchFiles readAsDataURL st =
     (if length (selectedFiles st) = 0 then st
      else
        let done = batchAfter readAsDataURL st (length (selectedFiles st))
        in (snd done)\<lparr>comparisonResults := fst done, currentProcessingFile := [],
                       isBatchProcessing := False\<rparr>)"

section \<open>Single-file processing\<close>

text \<open>
  \<open>processFile\<close> without its timers: the labeler's detections and a display time become
  the results of the selected file. The results card then compares them with the
  annotation of that file, if there is one.
\<close>

definition processFile :: "PageState \<Rightarrow> PageState" where
  "processFile st =
     (case selectedFile st of
        None \<Rightarrow> st
      | Some f \<Rightarrow>
         st\<lparr>results :=
              Some \<lparr>detections_r = analyzeImageForTrafficLights f,
                    processing_time_r = 1.2 + getDeterministicRandom (name f) 7 * 1.5,
                    file_type_r = (if startsWith (type_f f) ''image/'' then ''image'' else ''video''),
                    image_preview_r = imagePreview st\<rparr>\<rparr>)"

definition singleImageComparison :: "PageState \<Rightarrow> ComparisonResult option" where
  "singleImageComparison st =
     (case selectedFile st of
        None \<Rightarrow> None
      | Some f \<Rightarrow>
         (case results st of
            None \<Rightarrow> None
          | Some r \<Rightarrow> compare f (manualAnnotations st) (detections_r r)))"

text \<open>
  The states the page can be in: the initial one, and whatever a handler, a whole batch
  run, or a single update of a running batch makes of a reachable state.
\<close>

inductive reachable :: "PageState \<Rightarrow> bool" where
  r_init: "reachable initialState"
| r_file: "reachable st \<Longrightarrow> reachable (handleFileSelect rd files st)"
| r_folder: "reachable st \<Longrightarrow> reachable (handleFolderSelect fmt files st)"
| r_drop: "reachable st \<Longrightarrow> reachable (handleDrop fmt rd files st)"
| r_annotate: "reachable st \<Longrightarrow> reachable (handleManualAnnotation f st)"
| r_save: "reachable st \<Longrightarrow> reachable (saveManualAnnotation l c st)"
| r_reset: "reachable st \<Longrightarrow> reachable (resetAnnotation st)"
| r_single: "reachable st \<Longrightarrow> reachable (processFile st)"
| r_processing:
    "reachable st \<Longrightarrow> reachable (st\<lparr>batchResults := setProcessing i (batchResults st)\<rparr>)"
| r_completed:
    "reachable st \<Longrightarrow>
     reachable (st\<lparr>batchResults := setCompleted i ds t preview (batchResults st)\<rparr>)"
| r_round:
    "reachable st \<Longrightarrow> k \<le> length (selectedFiles st) \<Longrightarrow>
     reachable (snd (batchAfter rd st k))"
| r_batch: "reachable st \<Longrightarrow> reachable (processBatchFiles rd st)"

text \<open>What the batch run compares a file against: its own detections.\<close>

definition comparisonOf :: "ManualAnnotation list \<Rightarrow> File \<Rightarrow> ComparisonResult option" where
  "comparisonOf annotations f = compare f annotations (analyzeImageForTrafficLights f)"

section \<open>Example inputs\<close>

definition jpeg :: "string \<Rightarrow> File" where
  "jpeg n = \<lparr>name = n, size_f = 1024, type_f = ''image/jpeg'', bytes = []\<rparr>"

definition exampleFormat :: "nat \<Rightarrow> string" where
  "exampleFormat n = ''1 KB''"

definition exampleRead :: "File \<Rightarrow> string" where
  "exampleRead f = ''data:image/jpeg;base64,''"

text \<open>
  A folder with two images and a text file; the first image is annotated as a red light
  before the batch is run.
\<close>

definition exampleFolder :: "File list" where
  "exampleFolder =
     [jpeg ''red_green.jpg'',
      \<lparr>name = ''notes.txt'', size_f = 12, type_f = ''text/plain'', bytes = [104, 105]\<rparr>,
      jpeg ''blue_car.jpg'']"

definition exampleState :: PageState where
  "exampleState =
     saveManualAnnotation red_light 1
       (handleManualAnnotation (jpeg ''red_green.jpg'')
          (handleFolderSelect exampleFormat exampleFolder initialState))"

definition exampleComparisons :: "ComparisonResult list" where
  "exampleComparisons =
     [\<lparr>fileName_c = ''a.jpg'', humanLabel_c = red_light, modelPrediction = red_light,
       modelConfidence = 0.8, isCorrect = True, file_c = jpeg ''a.jpg''\<rparr>,
      \<lparr>fileName_c = ''b.jpg'', humanLabel_c = green_light, modelPrediction = green_light,
       modelConfidence = 0.9, isCorrect = True, file_c = jpeg ''b.jpg''\<rparr>,
      \<lparr>fileName_c = ''c.jpg'', humanLabel_c = no_traffic_light, modelPrediction = traffic_light,
       modelConfidence = 0.5, isCorrect = False, file_c = jpeg ''c.jpg''\<rparr>,
      \<lparr>fileName_c = ''d.jpg'', humanLabel_c = traffic_light, modelPrediction = traffic_light,
       modelConfidence = 0.6, isCorrect = True, file_c = jpeg ''d.jpg''\<rparr>]"

section \<open>The labeler reads nothing but the lower-cased name\<close>

lemma toLowerCase_char_idem: "toLowerCase_char (toLowerCase_char c) = toLowerCase_char c"
  by (auto simp: toLowerCase_char_def Let_def)

lemma toLowerCase_idem: "toLowerCase (toLowerCase s) = toLowerCase s"
  by (simp add: toLowerCase_def toLowerCase_char_idem)

text \<open>
  C3. The labeler is a function of the file name alone: two files with the same name get
  the same detection list, whatever their bytes, size and media type.
\<close>

theorem labeler_depends_on_name_only:
  "name f = name g \<Longrightarrow> analyzeImageForTrafficLights f = analyzeImageForTrafficLights g"
  by (simp add: analyzeImageForTrafficLights_def)

theorem labeler_depends_on_name_only_witness:
  "name (jpeg ''red_green.jpg'') =
     name \<lparr>name = ''red_green.jpg'', size_f = 7, type_f = ''video/mp4'', bytes = [1, 2, 3]\<rparr> \<and>
   jpeg ''red_green.jpg'' \<noteq>
     \<lparr>name = ''red_green.jpg'', size_f = 7, type_f = ''video/mp4'', bytes = [1, 2, 3]\<rparr> \<and>
   analyzeImageForTrafficLights (jpeg ''red_green.jpg'') =
     analyzeImageForTrafficLights
       \<lparr>name = ''red_green.jpg'', size_f = 7, type_f = ''video/mp4'', bytes = [1, 2, 3]\<rparr>"
proof -
  have h: "name (jpeg ''red_green.jpg'') =
     name \<lparr>name = ''red_green.jpg'', size_f = 7, type_f = ''video/mp4'', bytes = [1, 2, 3]\<rparr>"
    by (simp add: jpeg_def)
  show ?thesis
    using h labeler_depends_on_name_only [OF h] by (simp add: jpeg_def)
qed

text \<open>
  C9. Matching and hashing ignore case: a file whose name is replaced by its lower-case
  form gets the same detection list.
\<close>

theorem labeler_case_insensitive:
  "analyzeImageForTrafficLights (f\<lparr>name := toLowerCase (name f)\<rparr>) =
   analyzeImageForTrafficLights f"
  by (simp add: analyzeImageForTrafficLights_def toLowerCase_idem)

section \<open>Evaluating the labeler\<close>

lemmas labeler_eval = analyzeImageForTrafficLights_def getDeterministicRandom_def hashOf_def
  hashStep_def toLowerCase_def toLowerCase_char_def digits_def toString.simps push_if_def
  signalHead_def jpeg_def Let_def

lemma red_green_detections:
  "analyzeImageForTrafficLights (jpeg ''red_green.jpg'') =
     [\<lparr>bbox = [164, 108, 200, 180], confidence = 34772487249 / 42949672940,
       class_d = ''traffic_light'', light_state = red_light\<rparr>,
      \<lparr>bbox = [314, 128, 350, 200], confidence = 34772487249 / 42949672940,
       class_d = ''traffic_light'', light_state = green_light\<rparr>]"
  by (simp add: labeler_eval)

lemma red_green_max:
  "maxDetections (analyzeImageForTrafficLights (jpeg ''red_green.jpg'')) =
     analyzeImageForTrafficLights (jpeg ''red_green.jpg'')"
  unfolding red_green_detections by (simp add: maxDetections_def maxConfidence_def)

lemma blue_car_detections: "analyzeImageForTrafficLights (jpeg ''blue_car.jpg'') = []"
  by (simp add: labeler_eval)

section \<open>The primary detection is the last of the most confident ones\<close>

lemma foldl_higher_last:
  "foldl higher x xs = last (maxDetections (x # xs)) \<and> maxDetections (x # xs) \<noteq> []"
proof (induction xs rule: rev_induct)
  case Nil
  show ?case by (simp add: maxDetections_def maxConfidence_def)
next
  case (snoc y xs)
  let ?m = "maxConfidence (x # xs)"
  let ?p = "foldl higher x xs"
  from snoc have ne: "maxDetections (x # xs) \<noteq> []"
    and p: "?p = last (maxDetections (x # xs))" by auto
  have "?p \<in> set (maxDetections (x # xs))" using ne p by (metis last_in_set)
  then have pm: "confidence ?p = ?m"
    by (auto simp: maxDetections_def simp del: filter.simps)
  have st: "set (map confidence (x # xs @ [y])) =
            insert (confidence y) (set (map confidence (x # xs)))"
    by auto
  have "Max (insert (confidence y) (set (map confidence (x # xs)))) =
        max (confidence y) (Max (set (map confidence (x # xs))))"
    by (rule Max_insert) simp_all
  then have m': "maxConfidence (x # xs @ [y]) = max ?m (confidence y)"
    unfolding maxConfidence_def st by (simp only: max.commute)
  show ?case
  proof (cases "confidence ?p > confidence y")
    case True
    then have "max ?m (confidence y) = ?m" "confidence y \<noteq> ?m" using pm by auto
    then have "maxDetections (x # xs @ [y]) = maxDetections (x # xs)"
      using m' by (simp add: maxDetections_def)
    moreover have "higher ?p y = ?p" using True by (simp add: higher_def)
    ultimately show ?thesis using p ne by simp
  next
    case False
    then have mx: "max ?m (confidence y) = confidence y" using pm by auto
    then have "maxDetections (x # xs @ [y]) =
               filter (\<lambda>d. confidence d = confidence y) (x # xs) @ [y]"
      using m' by (simp add: maxDetections_def)
    moreover have "higher ?p y = y" using False by (simp add: higher_def)
    ultimately show ?thesis by simp
  qed
qed

lemma primaryDetection_last:
  "ds \<noteq> [] \<Longrightarrow> primaryDetection ds = Some (last (maxDetections ds))"
  by (cases ds) (simp_all add: primaryDetection_def foldl_higher_last)

lemma compare_Some:
  assumes "compare f anns ds = Some c"
  shows "ds \<noteq> [] \<and> fileName_c c = name f \<and> file_c c = f \<and>
         (\<exists>a \<in> set anns. fileName_a a = name f \<and> humanLabel_c c = humanLabel a) \<and>
         (\<exists>p. primaryDetection ds = Some p \<and> modelPrediction c = light_state p \<and>
              modelConfidence c = confidence p \<and> isCorrect c = (humanLabel_c c = light_state p))"
proof -
  from assms obtain a p where a: "find (\<lambda>a. fileName_a a = name f) anns = Some a"
    and p: "primaryDetection ds = Some p"
    and c: "c = \<lparr>fileName_c = name f, humanLabel_c = humanLabel a,
                      modelPrediction = light_state p, modelConfidence = confidence p,
                      isCorrect = (humanLabel a = light_state p), file_c = f\<rparr>"
    by (auto simp: compare_def Let_def split: option.splits)
  from a have "a \<in> set anns" "fileName_a a = name f"
    by (auto simp: find_Some_iff)
  moreover from p have "ds \<noteq> []" by (auto simp: primaryDetection_def)
  ultimately show ?thesis using c p by auto
qed

text \<open>
  C1, as the claim states it, fails: for \<open>red_green.jpg\<close> the red and the green detection
  share the highest confidence, and the primary detection is not the first of them.
\<close>

theorem primary_is_first_counterexample:
  "1 < length (maxDetections (analyzeImageForTrafficLights (jpeg ''red_green.jpg''))) \<and>
   primaryDetection (analyzeImageForTrafficLights (jpeg ''red_green.jpg''))
     \<noteq> Some (hd (maxDetections (analyzeImageForTrafficLights (jpeg ''red_green.jpg''))))"
  unfolding red_green_max unfolding red_green_detections
  by (simp add: primaryDetection_def higher_def)

text \<open>
  C1, amended. The callback keeps the earlier detection only when it is strictly more
  confident, so among the detections that share the highest confidence the primary one
  is the last in the list; its light state and confidence are what a comparison, in the
  batch run and in the single-file view alike, records as the model's prediction.
\<close>

theorem primary_is_last_maximum:
  assumes "ds \<noteq> []"
  shows "primaryDetection ds = Some (last (maxDetections ds)) \<and>
         (\<forall>c. compare f anns ds = Some c \<longrightarrow>
              modelPrediction c = light_state (last (maxDetections ds)) \<and>
              modelConfidence c = maxConfidence ds)"
proof -
  have p: "primaryDetection ds = Some (last (maxDetections ds))"
    using assms by (rule primaryDetection_last)
  obtain x xs where ds: "ds = x # xs" using assms by (cases ds) auto
  have "maxDetections ds \<noteq> []" unfolding ds using foldl_higher_last [of x xs] by simp
  then have "last (maxDetections ds) \<in> set (maxDetections ds)" by (rule last_in_set)
  then have m: "confidence (last (maxDetections ds)) = maxConfidence ds"
    by (auto simp: maxDetections_def simp del: filter.simps)
  have "modelPrediction c = light_state (last (maxDetections ds)) \<and>
        modelConfidence c = maxConfidence ds" if "compare f anns ds = Some c" for c
    using compare_Some [OF that] p m by auto
  with p show ?thesis by blast
qed

theorem primary_is_last_maximum_witness:
  "analyzeImageForTrafficLights (jpeg ''red_green.jpg'') \<noteq> [] \<and>
   primaryDetection (analyzeImageForTrafficLights (jpeg ''red_green.jpg'')) =
     Some (last (analyzeImageForTrafficLights (jpeg ''red_green.jpg''))) \<and>
   light_state (last (analyzeImageForTrafficLights (jpeg ''red_green.jpg''))) = green_light"
proof -
  have h: "analyzeImageForTrafficLights (jpeg ''red_green.jpg'') \<noteq> []"
    by (simp add: red_green_detections)
  have "primaryDetection (analyzeImageForTrafficLights (jpeg ''red_green.jpg'')) =
        Some (last (maxDetections (analyzeImageForTrafficLights (jpeg ''red_green.jpg''))))"
    using primary_is_last_maximum [OF h] by blast
  then show ?thesis using h by (simp add: red_green_max) (simp add: red_green_detections)
qed

section \<open>A name with \<open>traffic\<close> and no colour word\<close>

text \<open>
  C2, as the claim states it, fails: \<open>traffic_cam.jpg\<close> contains \<open>traffic\<close> and none of the
  colour words, and its fourth hash value is above 0.7, so the generic detection follows
  the three of the signal head.
\<close>

theorem traffic_alone_counterexample:
  "includes_s (toLowerCase (name (jpeg ''traffic_cam.jpg''))) ''traffic'' \<and>
   \<not> includes_s (toLowerCase (name (jpeg ''traffic_cam.jpg''))) ''red'' \<and>
   \<not> includes_s (toLowerCase (name (jpeg ''traffic_cam.jpg''))) ''green'' \<and>
   \<not> includes_s (toLowerCase (name (jpeg ''traffic_cam.jpg''))) ''yellow'' \<and>
   length (analyzeImageForTrafficLights (jpeg ''traffic_cam.jpg'')) = 4"
  by (simp add: labeler_eval)

text \<open>
  C2, amended. For a name that (in lower case) contains \<open>traffic\<close> and none of \<open>red\<close>,
  \<open>green\<close>, \<open>yellow\<close>, the detection list contains the three detections of the signal head
  (red at the base confidence, yellow at 0.05 below, green at 0.02 above, at the fixed
  boxes), next to each other and in this order. Nothing precedes them when the name has
  none of \<open>stop\<close>, \<open>go\<close>, \<open>amber\<close>, \<open>caution\<close>, and nothing follows them when it has
  neither \<open>light\<close> nor \<open>signal\<close> and the fourth hash value is at most 0.7; then the list
  is exactly these three.
\<close>

theorem traffic_alone:
  assumes "includes_s (toLowerCase (name f)) ''traffic''"
    and "\<not> includes_s (toLowerCase (name f)) ''red''"
    and "\<not> includes_s (toLowerCase (name f)) ''green''"
    and "\<not> includes_s (toLowerCase (name f)) ''yellow''"
  shows "\<exists>pre post.
      analyzeImageForTrafficLights f =
        pre @ signalHead (0.75 + getDeterministicRandom (toLowerCase (name f)) 0 * 0.2) @ post \<and>
      (\<not> includes_s (toLowerCase (name f)) ''stop'' \<and>
       \<not> includes_s (toLowerCase (name f)) ''go'' \<and>
       \<not> includes_s (toLowerCase (name f)) ''amber'' \<and>
       \<not> includes_s (toLowerCase (name f)) ''caution''
         \<longrightarrow> pre = []) \<and>
      (\<not> includes_s (toLowerCase (name f)) ''light'' \<and>
       \<not> includes_s (toLowerCase (name f)) ''signal'' \<and>
       \<not> getDeterministicRandom (toLowerCase (name f)) 3 > 0.7
         \<longrightarrow> post = [])"
proof -
  define n where "n = toLowerCase (name f)"
  define base where "base = 0.75 + getDeterministicRandom n 0 * 0.2"
  define v1 where "v1 = \<lfloor>getDeterministicRandom n 1 * 50\<rfloor>"
  define v2 where "v2 = \<lfloor>getDeterministicRandom n 2 * 30\<rfloor>"
  define pre where "pre =
    push_if (includes_s n ''yellow'' \<or> includes_s n ''amber'' \<or> includes_s n ''caution'')
      [\<lparr>bbox = [250 + v1, 110 + v2, 300, 190], confidence = base,
        class_d = ''traffic_light'', light_state = yellow_light\<rparr>]
      (push_if (includes_s n ''green'' \<or> includes_s n ''go'')
         [\<lparr>bbox = [300 + v1, 120 + v2, 350, 200], confidence = base,
           class_d = ''traffic_light'', light_state = green_light\<rparr>]
         (push_if (includes_s n ''red'' \<or> includes_s n ''stop'')
            [\<lparr>bbox = [150 + v1, 100 + v2, 200, 180], confidence = base,
              class_d = ''traffic_light'', light_state = red_light\<rparr>] []))"
  define post where "post =
    push_if (includes_s n ''light'' \<or> includes_s n ''signal'' \<or> getDeterministicRandom n 3 > 0.7)
      [\<lparr>bbox = [200 + \<lfloor>getDeterministicRandom n 4 * 100\<rfloor>,
                150 + \<lfloor>getDeterministicRandom n 5 * 50\<rfloor>, 250, 230],
        confidence = 0.45 + getDeterministicRandom n 6 * 0.2,
        class_d = ''traffic_light'', light_state = traffic_light\<rparr>] []"
  have pre_empty: "\<not> includes_s n ''stop'' \<and> \<not> includes_s n ''go'' \<and>
       \<not> includes_s n ''amber'' \<and> \<not> includes_s n ''caution'' \<longrightarrow> pre = []"
    using assms by (auto simp: pre_def push_if_def n_def)
  have post_empty: "\<not> includes_s n ''light'' \<and> \<not> includes_s n ''signal'' \<and>
       \<not> getDeterministicRandom n 3 > 0.7 \<longrightarrow> post = []"
    by (simp add: post_def push_if_def)
  have "analyzeImageForTrafficLights f = pre @ signalHead base @ post"
    using assms
    unfolding analyzeImageForTrafficLights_def Let_def n_def [symmetric]
      base_def [symmetric] v1_def [symmetric] v2_def [symmetric]
    by (simp add: push_if_def pre_def post_def)
  then show ?thesis using pre_empty post_empty unfolding n_def base_def by blast
qed

lemma traffic_jpg_random:
  "getDeterministicRandom ''traffic.jpg'' 0 = 792636864 / 2147483647 \<and>
   getDeterministicRandom ''traffic.jpg'' 3 = 792636867 / 2147483647"
  by (simp add: getDeterministicRandom_def hashOf_def hashStep_def digits_def toString.simps)

lemma traffic_jpg_name:
  "toLowerCase (name (jpeg ''traffic.jpg'')) = ''traffic.jpg''"
  by (simp add: toLowerCase_def toLowerCase_char_def jpeg_def)

theorem traffic_alone_witness:
  "includes_s (toLowerCase (name (jpeg ''traffic.jpg''))) ''traffic'' \<and>
   \<not> includes_s (toLowerCase (name (jpeg ''traffic.jpg''))) ''red'' \<and>
   \<not> includes_s (toLowerCase (name (jpeg ''traffic.jpg''))) ''green'' \<and>
   \<not> includes_s (toLowerCase (name (jpeg ''traffic.jpg''))) ''yellow'' \<and>
   analyzeImageForTrafficLights (jpeg ''traffic.jpg'') =
     signalHead (0.75 + 792636864 / 2147483647 * 0.2)"
proof -
  have h1: "includes_s (toLowerCase (name (jpeg ''traffic.jpg''))) ''traffic''"
    and h2: "\<not> includes_s (toLowerCase (name (jpeg ''traffic.jpg''))) ''red''"
    and h3: "\<not> includes_s (toLowerCase (name (jpeg ''traffic.jpg''))) ''green''"
    and h4: "\<not> includes_s (toLowerCase (name (jpeg ''traffic.jpg''))) ''yellow''"
    unfolding traffic_jpg_name by simp_all
  from traffic_alone [OF h1 h2 h3 h4] obtain pre post where
    "analyzeImageForTrafficLights (jpeg ''traffic.jpg'') =
       pre @ signalHead (0.75 + getDeterministicRandom ''traffic.jpg'' 0 * 0.2) @ post"
    "pre = []" "post = []"
    unfolding traffic_jpg_name by (auto simp: traffic_jpg_random)
  then show ?thesis using h1 h2 h3 h4 by (simp add: traffic_jpg_random)
qed

section \<open>The range of the hash-derived values\<close>

lemma sint_hash_bounds: "- 2147483648 \<le> sint (h :: 32 word) \<and> sint h \<le> 2147483647"
  using sint_ge [of h] sint_lt [of h] by simp

lemma sint_min_iff: "sint (h :: 32 word) = - 2147483648 \<longleftrightarrow> h = - 2147483648"
proof -
  have "sint (- 2147483648 :: 32 word) = - 2147483648" by simp
  then show ?thesis by (metis word_eq_iff_signed)
qed

lemma normalised_le_1: "real_of_int \<bar>x\<bar> / 2147483647 \<le> 1 \<longleftrightarrow> \<bar>x\<bar> \<le> 2147483647"
proof -
  have "real_of_int \<bar>x\<bar> / 2147483647 \<le> 1 \<longleftrightarrow> real_of_int \<bar>x\<bar> \<le> 2147483647"
    by (simp add: pos_divide_le_eq)
  also have "\<dots> \<longleftrightarrow> \<bar>x\<bar> \<le> 2147483647"
    by linarith
  finally show ?thesis .
qed

text \<open>
  The normalised value is never negative, and it is at most 1 for every hash but one: the
  most negative 32-bit integer, whose absolute value is one more than the divisor.
\<close>

lemma random_unit_interval:
  "0 \<le> getDeterministicRandom seed index \<and>
   (getDeterministicRandom seed index \<le> 1 \<longleftrightarrow>
      hashOf (seed @ toString index) \<noteq> - 2147483648)"
proof -
  let ?h = "hashOf (seed @ toString index)"
  have r: "getDeterministicRandom seed index = real_of_int \<bar>sint ?h\<bar> / 2147483647"
    by (simp only: getDeterministicRandom_def Let_def)
  have b: "- 2147483648 \<le> sint ?h \<and> sint ?h \<le> 2147483647" by (rule sint_hash_bounds)
  have "\<bar>sint ?h\<bar> \<le> 2147483647 \<longleftrightarrow> sint ?h \<noteq> - 2147483648" using b by arith
  also have "\<dots> \<longleftrightarrow> ?h \<noteq> - 2147483648" by (simp only: sint_min_iff)
  finally have "real_of_int \<bar>sint ?h\<bar> / 2147483647 \<le> 1 \<longleftrightarrow> ?h \<noteq> - 2147483648"
    by (simp only: normalised_le_1)
  moreover have "0 \<le> real_of_int \<bar>sint ?h\<bar> / 2147483647" by simp
  ultimately show ?thesis unfolding r by blast
qed

lemma overflow_hash: "hashOf (''red_xlfrxna.jpg'' @ toString 0) = - 2147483648"
  by (simp add: hashOf_def hashStep_def digits_def toString.simps)

lemma overflow_random: "getDeterministicRandom ''red_xlfrxna.jpg'' 0 = 2147483648 / 2147483647"
  by (simp add: getDeterministicRandom_def hashOf_def hashStep_def digits_def toString.simps)

lemma overflow_red:
  "light_state (hd (analyzeImageForTrafficLights (jpeg ''red_xlfrxna.jpg''))) = red_light"
  by (simp add: labeler_eval)

lemma overflow_red_confidence:
  "0.95 < confidence (hd (analyzeImageForTrafficLights (jpeg ''red_xlfrxna.jpg'')))"
  by (simp add: labeler_eval)

lemma overflow_generic:
  "light_state (last (analyzeImageForTrafficLights (jpeg ''light_gnhhotx.jpg''))) = traffic_light"
  by (simp add: labeler_eval)

lemma overflow_generic_confidence:
  "0.65 < confidence (last (analyzeImageForTrafficLights (jpeg ''light_gnhhotx.jpg'')))"
  by (simp add: labeler_eval)

text \<open>
  C4. The claim does not hold of the code: the name \<open>red_xlfrxna.jpg\<close> followed by the
  index 0 hashes to the most negative 32-bit integer, so the normalised value is above 1
  and the red detection's confidence is above 0.95; \<open>light_gnhhotx.jpg\<close> does the same
  at index 6, and its generic detection's confidence is above 0.65.
\<close>

theorem normalised_hash_exceeds_one:
  "hashOf (''red_xlfrxna.jpg'' @ toString 0) = - 2147483648 \<and>
   getDeterministicRandom ''red_xlfrxna.jpg'' 0 = 2147483648 / 2147483647 \<and>
   1 < getDeterministicRandom ''red_xlfrxna.jpg'' 0 \<and>
   light_state (hd (analyzeImageForTrafficLights (jpeg ''red_xlfrxna.jpg''))) = red_light \<and>
   0.95 < confidence (hd (analyzeImageForTrafficLights (jpeg ''red_xlfrxna.jpg''))) \<and>
   light_state (last (analyzeImageForTrafficLights (jpeg ''light_gnhhotx.jpg''))) = traffic_light \<and>
   0.65 < confidence (last (analyzeImageForTrafficLights (jpeg ''light_gnhhotx.jpg'')))"
proof -
  have "1 < getDeterministicRandom ''red_xlfrxna.jpg'' 0"
    unfolding overflow_random by simp
  then show ?thesis
    using overflow_hash overflow_random overflow_red overflow_red_confidence
      overflow_generic overflow_generic_confidence
    by blast
qed

section \<open>Accuracy metrics\<close>

lemma tally_apply:
  "tally r stats c =
     (if humanLabel_c r = c
      then (case stats c of
              None \<Rightarrow> None
            | Some e \<Rightarrow> Some \<lparr>correct_s = correct_s e + (if isCorrect r then 1 else 0),
                              total_s = total_s e + 1\<rparr>)
      else stats c)"
  by (simp add: tally_def Let_def split: option.split)

lemma fold_tally_apply:
  "fold tally cs stats c =
     (case stats c of
        None \<Rightarrow> None
      | Some e \<Rightarrow>
          Some \<lparr>correct_s = correct_s e + length (filter (\<lambda>r. humanLabel_c r = c \<and> isCorrect r) cs),
                total_s = total_s e + length (filter (\<lambda>r. humanLabel_c r = c) cs)\<rparr>)"
proof (induction cs arbitrary: stats)
  case Nil
  show ?case by (simp split: option.split)
next
  case (Cons r cs)
  have "fold tally (r # cs) stats c = fold tally cs (tally r stats) c" by simp
  also have "\<dots> =
     (case tally r stats c of
        None \<Rightarrow> None
      | Some e \<Rightarrow>
          Some \<lparr>correct_s = correct_s e + length (filter (\<lambda>r. humanLabel_c r = c \<and> isCorrect r) cs),
                total_s = total_s e + length (filter (\<lambda>r. humanLabel_c r = c) cs)\<rparr>)"
    by (rule Cons.IH)
  finally show ?case
    by (simp add: tally_apply [of r stats c] split: option.split)
qed

lemma emptyClassStats_apply:
  "emptyClassStats c =
     (if c = no_traffic_light then None else Some \<lparr>correct_s = 0, total_s = 0\<rparr>)"
  by (cases c) (simp_all add: emptyClassStats_def)

lemma dom_fold_tally:
  "dom (fold tally cs emptyClassStats) = {red_light, yellow_light, green_light, traffic_light}"
proof -
  have "\<And>c. (fold tally cs emptyClassStats c \<noteq> None) = (c \<noteq> no_traffic_light)"
    by (simp add: fold_tally_apply emptyClassStats_apply)
  then have "dom (fold tally cs emptyClassStats) = {c. c \<noteq> no_traffic_light}"
    by (auto simp: dom_def)
  also have "\<dots> = {red_light, yellow_light, green_light, traffic_light}"
  proof (rule set_eqI)
    fix c
    show "(c \<in> {c. c \<noteq> no_traffic_light}) =
          (c \<in> {red_light, yellow_light, green_light, traffic_light})"
      by (cases c) simp_all
  qed
  finally show ?thesis .
qed

text \<open>
  C6. \<open>calculateAccuracyMetrics\<close> returns nothing for the empty list. Otherwise the overall
  accuracy is the number of correct comparisons over their number, times 100, and the
  per-class table has exactly the four classes \<open>red_light\<close>, \<open>yellow_light\<close>, \<open>green_light\<close>,
  \<open>traffic_light\<close>; the entry of a class counts the comparisons whose human label is that
  class, and the correct ones among them.
\<close>

theorem metrics_correct:
  "calculateAccuracyMetrics [] = None \<and>
   (cs \<noteq> [] \<longrightarrow>
     (\<exists>m. calculateAccuracyMetrics cs = Some m \<and>
          correct m = length (filter isCorrect cs) \<and>
          total m = length cs \<and>
          overall m = real (correct m) / real (total m) * 100 \<and>
          dom (classStats m) = {red_light, yellow_light, green_light, traffic_light} \<and>
          (\<forall>c \<in> {red_light, yellow_light, green_light, traffic_light}.
             classStats m c =
               Some \<lparr>correct_s = length (filter (\<lambda>r. humanLabel_c r = c \<and> isCorrect r) cs),
                     total_s = length (filter (\<lambda>r. humanLabel_c r = c) cs)\<rparr>)))"
  by (simp add: calculateAccuracyMetrics_def Let_def dom_fold_tally fold_tally_apply
        emptyClassStats_apply)

theorem metrics_correct_witness:
  "exampleComparisons \<noteq> [] \<and>
   (case calculateAccuracyMetrics exampleComparisons of
      None \<Rightarrow> False
    | Some m \<Rightarrow>
        overall m = 75 \<and> correct m = 3 \<and> total m = 4 \<and>
        classStats m red_light = Some \<lparr>correct_s = 1, total_s = 1\<rparr> \<and>
        classStats m yellow_light = Some \<lparr>correct_s = 0, total_s = 0\<rparr> \<and>
        classStats m no_traffic_light = None)"
proof -
  have h: "exampleComparisons \<noteq> []" by (simp add: exampleComparisons_def)
  from metrics_correct [of exampleComparisons] h
  obtain m where m: "calculateAccuracyMetrics exampleComparisons = Some m"
    "correct m = length (filter isCorrect exampleComparisons)"
    "total m = length exampleComparisons"
    "overall m = real (correct m) / real (total m) * 100"
    "dom (classStats m) = {red_light, yellow_light, green_light, traffic_light}"
    "classStats m red_light =
       Some \<lparr>correct_s = length (filter (\<lambda>r. humanLabel_c r = red_light \<and> isCorrect r) exampleComparisons),
             total_s = length (filter (\<lambda>r. humanLabel_c r = red_light) exampleComparisons)\<rparr>"
    "classStats m yellow_light =
       Some \<lparr>correct_s = length (filter (\<lambda>r. humanLabel_c r = yellow_light \<and> isCorrect r) exampleComparisons),
             total_s = length (filter (\<lambda>r. humanLabel_c r = yellow_light) exampleComparisons)\<rparr>"
    by auto
  from m(5) have "classStats m no_traffic_light = None" by (auto simp: dom_def)
  with m h show ?thesis by (simp add: exampleComparisons_def)
qed

section \<open>The per-file updates\<close>

lemma length_map_index: "length (map_index f xs) = length xs"
  by (simp add: map_index_def)

lemma nth_map_index: "j < length xs \<Longrightarrow> map_index f xs ! j = f (xs ! j) j"
  by (simp add: map_index_def nth_enumerate_eq)

lemma length_setProcessing: "length (setProcessing i prev) = length prev"
  by (simp add: setProcessing_def length_map_index)

lemma length_setCompleted: "length (setCompleted i ds t pv prev) = length prev"
  by (simp add: setCompleted_def length_map_index)

lemma nth_setProcessing:
  "j < length prev \<Longrightarrow>
   setProcessing i prev ! j = (if j = i then (prev ! j)\<lparr>status := processing\<rparr> else prev ! j)"
  by (simp add: setProcessing_def nth_map_index)

lemma nth_setCompleted:
  "j < length prev \<Longrightarrow>
   setCompleted i ds t pv prev ! j =
     (if j = i
      then (prev ! j)\<lparr>detections := ds, processing_time := t, status := completed,
                       image_preview := pv\<rparr>
      else prev ! j)"
  by (simp add: setCompleted_def nth_map_index)

text \<open>
  C10. Neither update of a batch run (to \<open>processing\<close>, to \<open>completed\<close>) changes the file
  name, the size text, the media type or the file of any entry, or the number of entries;
  an entry at another index than the file's is left as it was, and the entry at the file's
  index changes in its status, detections, processing time and preview only.
\<close>

theorem batch_updates_frame:
  assumes "j < length prev"
  shows "fileName (setProcessing i prev ! j) = fileName (prev ! j) \<and>
         fileSize (setProcessing i prev ! j) = fileSize (prev ! j) \<and>
         file_type (setProcessing i prev ! j) = file_type (prev ! j) \<and>
         file_r (setProcessing i prev ! j) = file_r (prev ! j) \<and>
         fileName (setCompleted i ds t pv prev ! j) = fileName (prev ! j) \<and>
         fileSize (setCompleted i ds t pv prev ! j) = fileSize (prev ! j) \<and>
         file_type (setCompleted i ds t pv prev ! j) = file_type (prev ! j) \<and>
         file_r (setCompleted i ds t pv prev ! j) = file_r (prev ! j) \<and>
         (j \<noteq> i \<longrightarrow> setProcessing i prev ! j = prev ! j \<and>
                     setCompleted i ds t pv prev ! j = prev ! j) \<and>
         (j = i \<longrightarrow> setProcessing i prev ! j = (prev ! j)\<lparr>status := processing\<rparr> \<and>
                     setCompleted i ds t pv prev ! j =
                       (prev ! j)\<lparr>detections := ds, processing_time := t,
                                  status := completed, image_preview := pv\<rparr>) \<and>
         length (setProcessing i prev) = length prev \<and>
         length (setCompleted i ds t pv prev) = length prev"
  using assms
  by (simp add: nth_setProcessing nth_setCompleted length_setProcessing length_setCompleted)

theorem batch_updates_frame_witness:
  "(1::nat) < length (initialResults exampleFormat [jpeg ''red_green.jpg'', jpeg ''blue_car.jpg'']) \<and>
   fileName (setProcessing 0 (initialResults exampleFormat
               [jpeg ''red_green.jpg'', jpeg ''blue_car.jpg'']) ! 1) = ''blue_car.jpg'' \<and>
   setCompleted 0 [] 2 None (initialResults exampleFormat
               [jpeg ''red_green.jpg'', jpeg ''blue_car.jpg'']) ! 1 =
     initialResults exampleFormat [jpeg ''red_green.jpg'', jpeg ''blue_car.jpg''] ! 1 \<and>
   fileName (setCompleted 1 [] 2 None (initialResults exampleFormat
               [jpeg ''red_green.jpg'', jpeg ''blue_car.jpg'']) ! 1) = ''blue_car.jpg'' \<and>
   status (setCompleted 1 [] 2 None (initialResults exampleFormat
               [jpeg ''red_green.jpg'', jpeg ''blue_car.jpg'']) ! 1) = completed"
proof -
  let ?prev = "initialResults exampleFormat [jpeg ''red_green.jpg'', jpeg ''blue_car.jpg'']"
  have h: "(1::nat) < length ?prev" by (simp add: initialResults_def)
  have v: "fileName (?prev ! 1) = ''blue_car.jpg''" by (simp add: initialResults_def jpeg_def)
  show ?thesis
    using h v batch_updates_frame [OF h, of 0 "[]" 2 None]
      batch_updates_frame [OF h, of 1 "[]" 2 None]
    by simp
qed

section \<open>The batch loop\<close>

lemma snd_processIteration:
  "snd (processIteration rd files anns i p) =
     (snd p)\<lparr>currentProcessingFile := name (files ! i),
             batchResults :=
               setCompleted i (analyzeImageForTrafficLights (files ! i))
                 (1.0 + getDeterministicRandom (name (files ! i)) 9 * 2.0)
                 (if startsWith (type_f (files ! i)) ''image/'' then Some (rd (files ! i)) else None)
                 (setProcessing i (batchResults (snd p))),
             batchProgress := (real (i + 1) / real (length files)) * 100\<rparr>"
  by (simp add: processIteration_def Let_def)

lemma fst_processIteration:
  "fst (processIteration rd files anns i p) =
     fst p @ (case compare (files ! i) anns (analyzeImageForTrafficLights (files ! i)) of
                None \<Rightarrow> [] | Some c \<Rightarrow> [c])"
  by (simp add: processIteration_def Let_def split: option.split)

lemma batchAfter_0:
  "batchAfter rd st 0 = ([], st\<lparr>isBatchProcessing := True, batchProgress := 0\<rparr>)"
  by (simp add: batchAfter_def)

lemma batchAfter_Suc:
  "batchAfter rd st (Suc k) =
     processIteration rd (selectedFiles st) (manualAnnotations st) k (batchAfter rd st k)"
  by (simp add: batchAfter_def)

lemma batchAfter_length:
  "length (batchResults (snd (batchAfter rd st k))) = length (batchResults st)"
  by (induction k)
     (simp_all add: batchAfter_0 batchAfter_Suc snd_processIteration
        length_setCompleted length_setProcessing)

lemma batchAfter_frame:
  "j < length (batchResults st) \<Longrightarrow>
   fileName (batchResults (snd (batchAfter rd st k)) ! j) = fileName (batchResults st ! j) \<and>
   fileSize (batchResults (snd (batchAfter rd st k)) ! j) = fileSize (batchResults st ! j) \<and>
   file_type (batchResults (snd (batchAfter rd st k)) ! j) = file_type (batchResults st ! j) \<and>
   file_r (batchResults (snd (batchAfter rd st k)) ! j) = file_r (batchResults st ! j)"
proof (induction k)
  case 0
  show ?case by (simp add: batchAfter_0)
next
  case (Suc k)
  then show ?case
    by (auto simp: batchAfter_Suc snd_processIteration batchAfter_length
          nth_setCompleted nth_setProcessing length_setProcessing)
qed

lemma batchAfter_completed:
  "j < k \<Longrightarrow> j < length (batchResults st) \<Longrightarrow>
   status (batchResults (snd (batchAfter rd st k)) ! j) = completed \<and>
   detections (batchResults (snd (batchAfter rd st k)) ! j) =
     analyzeImageForTrafficLights (selectedFiles st ! j)"
proof (induction k)
  case 0
  then show ?case by simp
next
  case (Suc k)
  then show ?case
    by (cases "j = k")
       (simp_all add: batchAfter_Suc snd_processIteration batchAfter_length
          nth_setCompleted nth_setProcessing length_setProcessing)
qed

lemma batchAfter_progress:
  "batchProgress (snd (batchAfter rd st (Suc k))) =
     real (Suc k) / real (length (selectedFiles st)) * 100"
  by (simp add: batchAfter_Suc snd_processIteration)

lemma batchAfter_selectedFiles: "selectedFiles (snd (batchAfter rd st k)) = selectedFiles st"
  by (induction k) (simp_all add: batchAfter_0 batchAfter_Suc snd_processIteration)

lemma batchAfter_comparisons:
  "set (fst (batchAfter rd st k)) =
     {c. \<exists>j < k. comparisonOf (manualAnnotations st) (selectedFiles st ! j) = Some c}"
proof (induction k)
  case 0
  show ?case by (simp add: batchAfter_0)
next
  case (Suc k)
  show ?case
    unfolding batchAfter_Suc fst_processIteration
    using Suc by (auto simp: comparisonOf_def less_Suc_eq split: option.splits)
qed

lemma processBatchFiles_batchResults:
  "batchResults (processBatchFiles rd st) =
     batchResults (snd (batchAfter rd st (length (selectedFiles st))))"
  by (simp add: processBatchFiles_def Let_def batchAfter_0)

lemma processBatchFiles_comparisons:
  "selectedFiles st \<noteq> [] \<Longrightarrow>
   comparisonResults (processBatchFiles rd st) =
     fst (batchAfter rd st (length (selectedFiles st)))"
  by (simp add: processBatchFiles_def Let_def)

subsection \<open>Statuses\<close>

lemma in_setProcessing:
  "r \<in> set (setProcessing i rs) \<Longrightarrow> status r = processing \<or> r \<in> set rs"
  by (auto simp: in_set_conv_nth length_setProcessing nth_setProcessing split: if_splits)

lemma in_setCompleted:
  "r \<in> set (setCompleted i ds t pv rs) \<Longrightarrow> status r = completed \<or> r \<in> set rs"
  by (auto simp: in_set_conv_nth length_setCompleted nth_setCompleted split: if_splits)

lemma in_initialResults: "r \<in> set (initialResults fmt fs) \<Longrightarrow> status r = pending"
  by (auto simp: initialResults_def)

lemma batchAfter_status:
  "\<forall>r \<in> set (batchResults st). status r \<noteq> error \<Longrightarrow>
   \<forall>r \<in> set (batchResults (snd (batchAfter rd st k))). status r \<noteq> error"
proof (induction k)
  case 0
  then show ?case by (simp add: batchAfter_0)
next
  case (Suc k)
  show ?case
  proof
    fix r assume "r \<in> set (batchResults (snd (batchAfter rd st (Suc k))))"
    then have "status r = completed \<or> status r = processing \<or>
               r \<in> set (batchResults (snd (batchAfter rd st k)))"
      unfolding batchAfter_Suc snd_processIteration
      by (auto dest!: in_setCompleted in_setProcessing)
    then show "status r \<noteq> error" using Suc by auto
  qed
qed

lemma reachable_no_error:
  "reachable st \<Longrightarrow> \<forall>r \<in> set (batchResults st). status r \<noteq> error"
proof (induction rule: reachable.induct)
  case r_init
  show ?case by (simp add: initialState_def)
next
  case (r_file st rd files)
  then show ?case by (simp add: handleFileSelect_def selectSingle_def split: list.split)
next
  case (r_folder st fmt files)
  then show ?case
    by (auto simp: handleFolderSelect_def selectBatch_def Let_def dest: in_initialResults)
next
  case (r_drop st fmt rd files)
  then show ?case
    by (auto simp: handleDrop_def selectBatch_def selectSingle_def Let_def dest: in_initialResults)
next
  case (r_annotate st f)
  then show ?case by (simp add: handleManualAnnotation_def)
next
  case (r_save st l c)
  then show ?case by (simp add: saveManualAnnotation_def split: option.split)
next
  case (r_reset st)
  then show ?case by (simp add: resetAnnotation_def split: option.split)
next
  case (r_single st)
  then show ?case by (simp add: processFile_def split: option.split)
next
  case (r_processing st i)
  then show ?case by (auto dest: in_setProcessing)
next
  case (r_completed st i ds t preview)
  then show ?case by (auto dest: in_setCompleted)
next
  case (r_round st k rd)
  then show ?case using batchAfter_status by blast
next
  case (r_batch st rd)
  then show ?case unfolding processBatchFiles_batchResults using batchAfter_status by blast
qed

subsection \<open>The result list stays in line with the selected files\<close>

lemma map_setProcessing:
  "map file_r (setProcessing i rs) = map file_r rs \<and>
   map fileName (setProcessing i rs) = map fileName rs"
  by (auto intro!: nth_equalityI simp: length_setProcessing nth_setProcessing)

lemma map_setCompleted:
  "map file_r (setCompleted i ds t pv rs) = map file_r rs \<and>
   map fileName (setCompleted i ds t pv rs) = map fileName rs"
  by (auto intro!: nth_equalityI simp: length_setCompleted nth_setCompleted)

lemma map_batchAfter:
  "map file_r (batchResults (snd (batchAfter rd st k))) = map file_r (batchResults st) \<and>
   map fileName (batchResults (snd (batchAfter rd st k))) = map fileName (batchResults st)"
  by (auto intro!: nth_equalityI simp: batchAfter_length batchAfter_frame)

lemma map_initialResults:
  "map file_r (initialResults fmt fs) = fs \<and> map fileName (initialResults fmt fs) = map name fs"
  by (simp add: initialResults_def comp_def)

lemma reachable_synced:
  "reachable st \<Longrightarrow>
   map file_r (batchResults st) = selectedFiles st \<and>
   map fileName (batchResults st) = map name (selectedFiles st)"
proof (induction rule: reachable.induct)
  case r_init
  show ?case by (simp add: initialState_def)
next
  case (r_file st rd files)
  then show ?case by (simp add: handleFileSelect_def selectSingle_def split: list.split)
next
  case (r_folder st fmt files)
  then show ?case
    by (simp add: handleFolderSelect_def selectBatch_def Let_def map_initialResults)
next
  case (r_drop st fmt rd files)
  then show ?case
    by (simp add: handleDrop_def selectBatch_def selectSingle_def Let_def map_initialResults)
next
  case (r_annotate st f)
  then show ?case by (simp add: handleManualAnnotation_def)
next
  case (r_save st l c)
  then show ?case by (simp add: saveManualAnnotation_def split: option.split)
next
  case (r_reset st)
  then show ?case by (simp add: resetAnnotation_def split: option.split)
next
  case (r_single st)
  then show ?case by (simp add: processFile_def split: option.split)
next
  case (r_processing st i)
  then show ?case by (simp add: map_setProcessing)
next
  case (r_completed st i ds t preview)
  then show ?case by (simp add: map_setCompleted)
next
  case (r_round st k rd)
  then show ?case by (simp add: map_batchAfter batchAfter_selectedFiles)
next
  case (r_batch st rd)
  then show ?case
    by (simp add: processBatchFiles_def Let_def map_batchAfter batchAfter_selectedFiles)
qed

subsection \<open>The example run\<close>

lemma jpeg_fields:
  "name (jpeg n) = n \<and> type_f (jpeg n) = ''image/jpeg'' \<and> size_f (jpeg n) = 1024"
  by (simp add: jpeg_def)

lemma exampleState_reachable: "reachable exampleState"
  unfolding exampleState_def
  by (intro reachable.r_save reachable.r_annotate reachable.r_folder reachable.r_init)

lemma exampleState_fields:
  "selectedFiles exampleState = [jpeg ''red_green.jpg'', jpeg ''blue_car.jpg''] \<and>
   manualAnnotations exampleState =
     [\<lparr>fileName_a = ''red_green.jpg'', humanLabel = red_light, confidence_a = 1\<rparr>] \<and>
   batchResults exampleState =
     initialResults exampleFormat [jpeg ''red_green.jpg'', jpeg ''blue_car.jpg'']"
  by (simp add: exampleState_def saveManualAnnotation_def handleManualAnnotation_def
        handleFolderSelect_def selectBatch_def initialState_def exampleFolder_def
        isMedia_def jpeg_fields Let_def)

text \<open>
  C8. In every reachable state, whichever handlers, batch runs and single updates of a
  running batch led to it, the status of every batch result is \<open>pending\<close>, \<open>processing\<close>
  or \<open>completed\<close>; none is \<open>error\<close>.
\<close>

theorem no_error_status:
  assumes "reachable st"
  shows "\<forall>r \<in> set (batchResults st). status r \<in> {pending, processing, completed}"
proof
  fix r assume "r \<in> set (batchResults st)"
  with assms have "status r \<noteq> error" using reachable_no_error by blast
  then show "status r \<in> {pending, processing, completed}"
    by (cases "status r") simp_all
qed

theorem no_error_status_witness:
  "reachable (snd (batchAfter exampleRead exampleState 1)) \<and>
   batchResults (snd (batchAfter exampleRead exampleState 1)) \<noteq> [] \<and>
   status (hd (batchResults (snd (batchAfter exampleRead exampleState 1))))
     \<in> {pending, processing, completed}"
proof -
  have h: "reachable (snd (batchAfter exampleRead exampleState 1))"
    by (rule reachable.r_round [OF exampleState_reachable]) (simp add: exampleState_fields)
  have "length (batchResults (snd (batchAfter exampleRead exampleState 1))) = 2"
    by (simp add: batchAfter_length exampleState_fields initialResults_def)
  then have ne: "batchResults (snd (batchAfter exampleRead exampleState 1)) \<noteq> []" by auto
  then have "hd (batchResults (snd (batchAfter exampleRead exampleState 1)))
               \<in> set (batchResults (snd (batchAfter exampleRead exampleState 1)))"
    by (rule hd_in_set)
  with no_error_status [OF h] ne h show ?thesis by blast
qed

text \<open>
  C7. A batch run started in a reachable state with N selected files leaves N batch
  results, one per file and in the order of the files, all with status \<open>completed\<close>;
  after the i-th file of the run the progress is i / N * 100.
\<close>

theorem batch_results_complete:
  assumes "reachable st"
  shows "length (batchResults (processBatchFiles rd st)) = length (selectedFiles st) \<and>
         map file_r (batchResults (processBatchFiles rd st)) = selectedFiles st \<and>
         map fileName (batchResults (processBatchFiles rd st)) = map name (selectedFiles st) \<and>
         (\<forall>r \<in> set (batchResults (processBatchFiles rd st)). status r = completed) \<and>
         (\<forall>i. 0 < i \<and> i \<le> length (selectedFiles st) \<longrightarrow>
              batchProgress (snd (batchAfter rd st i)) =
                real i / real (length (selectedFiles st)) * 100)"
proof -
  let ?n = "length (selectedFiles st)"
  from assms have sy: "map file_r (batchResults st) = selectedFiles st"
    "map fileName (batchResults st) = map name (selectedFiles st)"
    by (simp_all add: reachable_synced)
  from sy(1) have len: "length (batchResults st) = ?n" by (metis length_map)
  have a: "length (batchResults (processBatchFiles rd st)) = ?n"
    by (simp add: processBatchFiles_batchResults batchAfter_length len)
  have b: "map file_r (batchResults (processBatchFiles rd st)) = selectedFiles st"
    "map fileName (batchResults (processBatchFiles rd st)) = map name (selectedFiles st)"
    by (simp_all add: processBatchFiles_batchResults map_batchAfter sy)
  have c: "\<forall>r \<in> set (batchResults (processBatchFiles rd st)). status r = completed"
  proof
    fix r assume "r \<in> set (batchResults (processBatchFiles rd st))"
    then obtain j where j: "j < ?n" "r = batchResults (snd (batchAfter rd st ?n)) ! j"
      by (auto simp: in_set_conv_nth processBatchFiles_batchResults batchAfter_length len)
    then show "status r = completed" using batchAfter_completed [of j ?n st rd] len by simp
  qed
  have d: "\<forall>i. 0 < i \<and> i \<le> ?n \<longrightarrow>
              batchProgress (snd (batchAfter rd st i)) = real i / real ?n * 100"
  proof (intro allI impI)
    fix i assume "0 < i \<and> i \<le> ?n"
    then obtain k where "i = Suc k" by (cases i) auto
    then show "batchProgress (snd (batchAfter rd st i)) = real i / real ?n * 100"
      by (simp only: batchAfter_progress)
  qed
  from a b c d show ?thesis by blast
qed

theorem batch_results_complete_witness:
  "reachable exampleState \<and>
   length (batchResults (processBatchFiles exampleRead exampleState)) = 2 \<and>
   map fileName (batchResults (processBatchFiles exampleRead exampleState)) =
     [''red_green.jpg'', ''blue_car.jpg''] \<and>
   status (hd (batchResults (processBatchFiles exampleRead exampleState))) = completed \<and>
   batchProgress (snd (batchAfter exampleRead exampleState 1)) = 50 \<and>
   batchProgress (snd (batchAfter exampleRead exampleState 2)) = 100"
proof -
  note t = batch_results_complete [OF exampleState_reachable, of exampleRead]
  from t have l: "length (batchResults (processBatchFiles exampleRead exampleState)) = 2"
    by (simp add: exampleState_fields)
  then have "batchResults (processBatchFiles exampleRead exampleState) \<noteq> []" by auto
  then have "hd (batchResults (processBatchFiles exampleRead exampleState))
               \<in> set (batchResults (processBatchFiles exampleRead exampleState))"
    by (rule hd_in_set)
  with t have s: "status (hd (batchResults (processBatchFiles exampleRead exampleState))) = completed"
    by blast
  from t have n: "map fileName (batchResults (processBatchFiles exampleRead exampleState)) =
     [''red_green.jpg'', ''blue_car.jpg'']"
    by (simp add: exampleState_fields jpeg_fields)
  from t have p: "\<forall>i. 0 < i \<and> i \<le> 2 \<longrightarrow>
       batchProgress (snd (batchAfter exampleRead exampleState i)) = real i / 2 * 100"
    by (simp add: exampleState_fields)
  from p have p1: "batchProgress (snd (batchAfter exampleRead exampleState 1)) = 50"
    by (drule_tac x = 1 in spec) simp
  from p have p2: "batchProgress (snd (batchAfter exampleRead exampleState 2)) = 100"
    by (drule_tac x = 2 in spec) simp
  from exampleState_reachable l n s p1 p2 show ?thesis by blast
qed

text \<open>
  C5. After a batch run over a non-empty selection, started in a reachable state, every
  comparison belongs to a selected file that has an annotation under its name and at
  least one detection. A file without detections is still brought to \<open>completed\<close>, with
  an empty detection list, and no comparison carries its name.
\<close>

theorem comparisons_only_for_annotated_detected:
  assumes "reachable st" and "selectedFiles st \<noteq> []"
  shows "(\<forall>c \<in> set (comparisonResults (processBatchFiles rd st)).
            \<exists>f \<in> set (selectedFiles st).
              file_c c = f \<and> fileName_c c = name f \<and>
              (\<exists>a \<in> set (manualAnnotations st). fileName_a a = name f) \<and>
              analyzeImageForTrafficLights f \<noteq> []) \<and>
         (\<forall>i < length (selectedFiles st).
            analyzeImageForTrafficLights (selectedFiles st ! i) = [] \<longrightarrow>
              status (batchResults (processBatchFiles rd st) ! i) = completed \<and>
              detections (batchResults (processBatchFiles rd st) ! i) = [] \<and>
              (\<forall>c \<in> set (comparisonResults (processBatchFiles rd st)).
                 fileName_c c \<noteq> name (selectedFiles st ! i)))"
proof -
  let ?n = "length (selectedFiles st)"
  let ?cs = "comparisonResults (processBatchFiles rd st)"
  have len: "length (batchResults st) = ?n"
    using reachable_synced [OF assms(1)] by (metis length_map)
  have cs: "set ?cs =
    {c. \<exists>j < ?n. comparisonOf (manualAnnotations st) (selectedFiles st ! j) = Some c}"
    using assms(2) by (simp add: processBatchFiles_comparisons batchAfter_comparisons)
  have part1: "\<exists>f \<in> set (selectedFiles st).
              file_c c = f \<and> fileName_c c = name f \<and>
              (\<exists>a \<in> set (manualAnnotations st). fileName_a a = name f) \<and>
              analyzeImageForTrafficLights f \<noteq> []" if "c \<in> set ?cs" for c
  proof -
    from that cs obtain j where j: "j < ?n"
      "compare (selectedFiles st ! j) (manualAnnotations st)
         (analyzeImageForTrafficLights (selectedFiles st ! j)) = Some c"
      by (auto simp: comparisonOf_def)
    from compare_Some [OF j(2)] j(1) show ?thesis
      by (intro bexI [of _ "selectedFiles st ! j"]) auto
  qed
  have part2: "status (batchResults (processBatchFiles rd st) ! i) = completed \<and>
              detections (batchResults (processBatchFiles rd st) ! i) = [] \<and>
              (\<forall>c \<in> set ?cs. fileName_c c \<noteq> name (selectedFiles st ! i))"
    if i: "i < ?n" and e: "analyzeImageForTrafficLights (selectedFiles st ! i) = []" for i
  proof -
    have "status (batchResults (processBatchFiles rd st) ! i) = completed \<and>
          detections (batchResults (processBatchFiles rd st) ! i) = []"
      using batchAfter_completed [of i ?n st rd] i e len
      by (simp add: processBatchFiles_batchResults)
    moreover have "fileName_c c \<noteq> name (selectedFiles st ! i)" if "c \<in> set ?cs" for c
    proof
      assume eq: "fileName_c c = name (selectedFiles st ! i)"
      from part1 [OF that] obtain f where f: "fileName_c c = name f"
        "analyzeImageForTrafficLights f \<noteq> []" by auto
      have "analyzeImageForTrafficLights f = analyzeImageForTrafficLights (selectedFiles st ! i)"
        using f(1) eq by (simp add: analyzeImageForTrafficLights_def)
      with f(2) e show False by simp
    qed
    ultimately show ?thesis by blast
  qed
  from part1 part2 show ?thesis by blast
qed

lemma example_comparisons:
  "map fileName_c (fst (batchAfter exampleRead exampleState 2)) = [''red_green.jpg'']"
proof -
  have two: "batchAfter exampleRead exampleState 2 =
             batchAfter exampleRead exampleState (Suc (Suc 0))"
    by (simp add: numeral_2_eq_2)
  have c0: "compare (jpeg ''red_green.jpg'')
              [\<lparr>fileName_a = ''red_green.jpg'', humanLabel = red_light, confidence_a = 1\<rparr>]
              (analyzeImageForTrafficLights (jpeg ''red_green.jpg'')) \<noteq> None"
    unfolding red_green_detections
    by (simp add: compare_def primaryDetection_def jpeg_fields Let_def)
  have c1: "compare (jpeg ''blue_car.jpg'')
              [\<lparr>fileName_a = ''red_green.jpg'', humanLabel = red_light, confidence_a = 1\<rparr>]
              (analyzeImageForTrafficLights (jpeg ''blue_car.jpg'')) = None"
    unfolding blue_car_detections
    by (simp add: compare_def primaryDetection_def jpeg_fields Let_def)
  from c0 obtain c where c: "compare (jpeg ''red_green.jpg'')
              [\<lparr>fileName_a = ''red_green.jpg'', humanLabel = red_light, confidence_a = 1\<rparr>]
              (analyzeImageForTrafficLights (jpeg ''red_green.jpg'')) = Some c" by auto
  from compare_Some [OF c] have "fileName_c c = ''red_green.jpg''" by (simp add: jpeg_fields)
  then show ?thesis
    unfolding two batchAfter_Suc
    by (simp add: fst_processIteration batchAfter_0 exampleState_fields c c1)
qed

theorem comparisons_only_for_annotated_detected_witness:
  "reachable exampleState \<and> selectedFiles exampleState \<noteq> [] \<and>
   map fileName_c (comparisonResults (processBatchFiles exampleRead exampleState)) =
     [''red_green.jpg''] \<and>
   analyzeImageForTrafficLights (selectedFiles exampleState ! 1) = [] \<and>
   status (batchResults (processBatchFiles exampleRead exampleState) ! 1) = completed \<and>
   detections (batchResults (processBatchFiles exampleRead exampleState) ! 1) = []"
proof -
  have h: "selectedFiles exampleState \<noteq> []" by (simp add: exampleState_fields)
  note t = comparisons_only_for_annotated_detected [OF exampleState_reachable h, of exampleRead]
  have e: "analyzeImageForTrafficLights (selectedFiles exampleState ! 1) = []"
    by (simp add: exampleState_fields blue_car_detections)
  have n: "length (selectedFiles exampleState) = 2" by (simp add: exampleState_fields)
  have i: "1 < length (selectedFiles exampleState)" by (simp add: exampleState_fields)
  from t e i have s:
    "status (batchResults (processBatchFiles exampleRead exampleState) ! 1) = completed \<and>
     detections (batchResults (processBatchFiles exampleRead exampleState) ! 1) = []"
    by blast
  have c: "map fileName_c (comparisonResults (processBatchFiles exampleRead exampleState)) =
     [''red_green.jpg'']"
    unfolding processBatchFiles_comparisons [OF h] n by (rule example_comparisons)
  from exampleState_reachable h c e s show ?thesis by blast
qed

end
